theory Spec2Isabelle
  imports Main
begin

section \<open>Strings\<close>

text \<open>
  A Python \<open>str\<close> is modelled as a HOL \<open>string\<close>: a list of characters, each read as
  the code point of the same number (U+0000 to U+00FF). On this range the library
  operations the program calls (\<open>lower\<close>, \<open>strip\<close>, \<open>in\<close>, \<open>split\<close>, \<open>join\<close>,
  \<open>re.search\<close>, \<open>re.sub\<close>) are the definitions below.
\<close>

definition newline :: char where
  "newline = CHR 0x0A"

text \<open>\<open>str.isspace\<close> of one character, which is also the class \<open>\\s\<close> of \<open>re\<close> on \<open>str\<close>.\<close>

definition is_space :: "char \<Rightarrow> bool" where
  "is_space c =
     (let n = (of_char c :: nat)
      in (9 \<le> n \<and> n \<le> 13) \<or> (28 \<le> n \<and> n \<le> 32) \<or> n = 133 \<or> n = 160)"

text \<open>\<open>str.lower\<close> of one character: A to Z, and the capital letters of U+00C0 to U+00DE.\<close>

definition lower_char :: "char \<Rightarrow> char" where
  "lower_char c =
     (let n = (of_char c :: nat)
      in if (65 \<le> n \<and> n \<le> 90) \<or> (192 \<le> n \<and> n \<le> 222 \<and> n \<noteq> 215)
         then char_of (n + 32) else c)"

definition lower :: "string \<Rightarrow> string" where
  "lower s = map lower_char s"

definition lstrip :: "string \<Rightarrow> string" where
  "lstrip s = dropWhile is_space s"

definition rstrip :: "string \<Rightarrow> string" where
  "rstrip s = rev (dropWhile is_space (rev s))"

definition strip :: "string \<Rightarrow> string" where
  "strip s = rstrip (lstrip s)"

fun starts_with :: "string \<Rightarrow> string \<Rightarrow> bool" where
  "starts_with [] s = True"
| "starts_with (k # ks) [] = False"
| "starts_with (k # ks) (c # cs) = (k = c \<and> starts_with ks cs)"

text \<open>\<open>k in s\<close> on strings: \<open>k\<close> occurs in \<open>s\<close> as a substring.\<close>

fun str_in :: "string \<Rightarrow> string \<Rightarrow> bool" where
  "str_in k [] = (k = [])"
| "str_in k (c # cs) = (starts_with k (c # cs) \<or> str_in k cs)"

text \<open>\<open>s.split('\\n')\<close>: the pieces between newlines, empty pieces kept.\<close>

fun split_nl :: "string \<Rightarrow> string list" where
  "split_nl [] = [[]]"
| "split_nl (c # cs) =
     (if c = newline then [] # split_nl cs
      else (case split_nl cs of [] \<Rightarrow> [[c]] | l # ls \<Rightarrow> (c # l) # ls))"

text \<open>\<open>'\\n'.join(ls)\<close>.\<close>

fun join_nl :: "string list \<Rightarrow> string" where
  "join_nl [] = []"
| "join_nl [l] = l"
| "join_nl (l # l' # ls) = l @ newline # join_nl (l' # ls)"

section \<open>Regular expressions\<close>

text \<open>
  The part of Python's \<open>re\<close> that the program's patterns use: literals, \<open>.\<close>, bracket
  classes with \<open>\\s\<close> and ranges, \<open>.*?\<close>, \<open>.+?\<close>, \<open>\\s+\<close>, a greedy optional group,
  alternation, one capturing group, a lookahead and \<open>^\<close>, under the flags IGNORECASE,
  DOTALL and MULTILINE. A match is found by backtracking; \<open>rmatch\<close> returns every way
  the pattern matches at one position, in the order in which backtracking tries them, so
  the head of the list is the match that \<open>re\<close> reports. Repetition is over one character
  class, as in all the program's patterns. Under IGNORECASE a literal matches the
  characters with the same lower-case form, which is what \<open>re\<close> does on U+0000 to U+00FF.
  A range is compared as written, and a lookahead
  keeps no group: the program has no range under IGNORECASE and no group in a lookahead.
\<close>

record flags =
  ignorecase :: bool
  dotall :: bool
  multiline :: bool

datatype item = Lit char | Space | Range char char

datatype cset = Any | OneOf "item list"

datatype regex =
    One cset
  | LazyStar cset
  | LazyPlus cset
  | GreedyPlus cset
  | Eps
  | Seq regex regex
  | Alt regex regex
  | Opt regex
  | Group regex
  | Lookahead regex
  | Bol

text \<open>
  A position of the matcher: the character before it (None at the start of the string),
  the text from it on, and what group 1 holds so far.
\<close>

type_synonym mstate = "char option \<times> string \<times> string option"

fun item_matches :: "flags \<Rightarrow> item \<Rightarrow> char \<Rightarrow> bool" where
  "item_matches f (Lit c) x = (if ignorecase f then lower_char x = lower_char c else x = c)"
| "item_matches f Space x = is_space x"
| "item_matches f (Range lo hi) x =
     ((of_char lo :: nat) \<le> of_char x \<and> (of_char x :: nat) \<le> of_char hi)"

fun cset_matches :: "flags \<Rightarrow> cset \<Rightarrow> char \<Rightarrow> bool" where
  "cset_matches f Any x = (dotall f \<or> x \<noteq> newline)"
| "cset_matches f (OneOf is) x = list_ex (\<lambda>i. item_matches f i x) is"

fun step :: "flags \<Rightarrow> cset \<Rightarrow> mstate \<Rightarrow> mstate list" where
  "step f cs (p, [], g) = []"
| "step f cs (p, x # xs, g) = (if cset_matches f cs x then [(Some x, xs, g)] else [])"

fun lazy_run :: "flags \<Rightarrow> cset \<Rightarrow> mstate \<Rightarrow> mstate list" where
  "lazy_run f cs (p, [], g) = [(p, [], g)]"
| "lazy_run f cs (p, x # xs, g) =
     (p, x # xs, g) # (if cset_matches f cs x then lazy_run f cs (Some x, xs, g) else [])"

fun greedy_run :: "flags \<Rightarrow> cset \<Rightarrow> mstate \<Rightarrow> mstate list" where
  "greedy_run f cs (p, [], g) = [(p, [], g)]"
| "greedy_run f cs (p, x # xs, g) =
     (if cset_matches f cs x then greedy_run f cs (Some x, xs, g) else []) @ [(p, x # xs, g)]"

fun rmatch :: "flags \<Rightarrow> regex \<Rightarrow> mstate \<Rightarrow> mstate list" where
  "rmatch f (One cs) st = step f cs st"
| "rmatch f (LazyStar cs) st = lazy_run f cs st"
| "rmatch f (LazyPlus cs) st = concat (map (lazy_run f cs) (step f cs st))"
| "rmatch f (GreedyPlus cs) st = concat (map (greedy_run f cs) (step f cs st))"
| "rmatch f Eps st = [st]"
| "rmatch f (Seq a b) st = concat (map (rmatch f b) (rmatch f a st))"
| "rmatch f (Alt a b) st = rmatch f a st @ rmatch f b st"
| "rmatch f (Opt a) st = rmatch f a st @ [st]"
| "rmatch f (Group a) (p, s, g) =
     map (\<lambda>(p', s', g'). (p', s', Some (take (length s - length s') s))) (rmatch f a (p, s, g))"
| "rmatch f (Lookahead a) st = (if rmatch f a st = [] then [] else [st])"
| "rmatch f Bol (p, s, g) =
     (if p = None \<or> (multiline f \<and> p = Some newline) then [(p, s, g)] else [])"

text \<open>\<open>re.search\<close>: the first match at the leftmost position that has one.\<close>

fun search_from :: "flags \<Rightarrow> regex \<Rightarrow> char option \<Rightarrow> string \<Rightarrow> mstate option" where
  "search_from f r p [] =
     (case rmatch f r (p, [], None) of [] \<Rightarrow> None | st # _ \<Rightarrow> Some st)"
| "search_from f r p (x # xs) =
     (case rmatch f r (p, x # xs, None) of
        [] \<Rightarrow> search_from f r (Some x) xs
      | st # _ \<Rightarrow> Some st)"

definition re_search :: "flags \<Rightarrow> regex \<Rightarrow> string \<Rightarrow> mstate option" where
  "re_search f r s = search_from f r None s"

text \<open>\<open>re.fullmatch\<close>, as a truth value: some way of matching at the start takes the whole string.\<close>

definition re_fullmatch :: "flags \<Rightarrow> regex \<Rightarrow> string \<Rightarrow> bool" where
  "re_fullmatch f r s = list_ex (\<lambda>st. fst (snd st) = []) (rmatch f r (None, s, None))"

text \<open>
  \<open>re.sub(pattern, "", s)\<close>: every leftmost non-overlapping match is deleted. \<open>skip\<close>
  counts the characters of the current match still to be dropped. An empty match
  deletes nothing and the scan moves on by one character.
\<close>

fun sub_from :: "flags \<Rightarrow> regex \<Rightarrow> char option \<Rightarrow> string \<Rightarrow> nat \<Rightarrow> string" where
  "sub_from f r p [] skip = []"
| "sub_from f r p (x # xs) (Suc n) = sub_from f r (Some x) xs n"
| "sub_from f r p (x # xs) 0 =
     (case rmatch f r (p, x # xs, None) of
        [] \<Rightarrow> x # sub_from f r (Some x) xs 0
      | (p', s', g') # _ \<Rightarrow>
          (if length s' < Suc (length xs)
           then sub_from f r (Some x) xs (length xs - length s')
           else x # sub_from f r (Some x) xs 0))"

definition re_sub_empty :: "flags \<Rightarrow> regex \<Rightarrow> string \<Rightarrow> string" where
  "re_sub_empty f r s = sub_from f r None s 0"

text \<open>Writing patterns: a literal string, a sequence, \<open>\\s+\<close>.\<close>

definition lit :: "char \<Rightarrow> regex" where
  "lit c = One (OneOf [Lit c])"

fun lits :: "string \<Rightarrow> regex" where
  "lits [] = Eps"
| "lits (c # cs) = Seq (lit c) (lits cs)"

fun seqs :: "regex list \<Rightarrow> regex" where
  "seqs [] = Eps"
| "seqs (r # rs) = Seq r (seqs rs)"

section \<open>storycraft.py: StoryConfig and PromptAnalyzer\<close>

record StoryConfig =
  genre :: string
  style :: string
  story_length :: string
  tone :: string
  protagonist :: string
  setting :: string
  theme :: string
  original_prompt :: string

text \<open>The dataclass's defaults: what \<open>StoryConfig()\<close> constructs.\<close>

definition StoryConfig_default :: StoryConfig where
  "StoryConfig_default =
     \<lparr>genre = ''general'', style = ''narrative'', story_length = ''medium'',
      tone = ''neutral'', protagonist = [], setting = [], theme = [],
      original_prompt = []\<rparr>"

text \<open>
  The tables are dicts, iterated in insertion order: association lists in the order
  of the source.
\<close>

record PromptAnalyzer =
  genre_keywords :: "(string \<times> string list) list"
  length_keywords :: "(string \<times> string list) list"
  tone_keywords :: "(string \<times> string list) list"
  character_patterns :: "regex list"
  setting_patterns :: "regex list"

text \<open>The class \<open>[\\.,\\s]\<close> and the group \<open>(.+?)\<close> that the patterns share.\<close>

definition terminator :: regex where
  "terminator = One (OneOf [Lit (CHR ''.''), Lit (CHR '',''), Space])"

definition capture :: regex where
  "capture = Group (LazyPlus Any)"

definition article :: regex where
  "article = Opt (Alt (lits ''a '') (lits ''an ''))"

definition is_named_called :: regex where
  "is_named_called = Opt (Alt (lits ''is '') (Alt (lits ''named '') (lits ''called '')))"

definition PromptAnalyzer_init :: PromptAnalyzer where
  "PromptAnalyzer_init =
    \<lparr>genre_keywords =
       [(''fantasy'', [''magic'', ''wizard'', ''dragon'', ''fairy'', ''enchanted'', ''spell'',
                      ''mythical'', ''magical'', ''fantasy'']),
        (''sci-fi'', [''space'', ''alien'', ''robot'', ''future'', ''technology'', ''spaceship'',
                     ''laser'', ''cyborg'', ''sci-fi'', ''science fiction'']),
        (''mystery'', [''detective'', ''murder'', ''clue'', ''investigation'', ''suspect'',
                      ''crime'', ''mystery'', ''solve'']),
        (''horror'', [''scary'', ''ghost'', ''monster'', ''haunted'', ''nightmare'', ''terror'',
                     ''horror'', ''frightening'']),
        (''romance'', [''love'', ''romance'', ''dating'', ''relationship'', ''wedding'',
                      ''romantic'', ''heart'', ''couple'']),
        (''adventure'', [''journey'', ''quest'', ''explore'', ''adventure'', ''treasure'',
                        ''expedition'', ''travel'']),
        (''thriller'', [''chase'', ''escape'', ''danger'', ''suspense'', ''thriller'', ''action'',
                       ''pursuit'']),
        (''historical'', [''medieval'', ''ancient'', ''historical'', ''century'', ''war'',
                         ''kingdom'', ''empire'']),
        (''comedy'', [''funny'', ''humor'', ''laugh'', ''joke'', ''comedy'', ''hilarious'',
                     ''amusing'']),
        (''contemporary'', [''modern'', ''today'', ''current'', ''realistic'', ''everyday''])],
     length_keywords =
       [(''short'', [''short'', ''brief'', ''quick'', ''flash'', ''micro'']),
        (''medium'', [''medium'', ''regular'', ''standard'']),
        (''long'', [''long'', ''detailed'', ''extended'', ''comprehensive'']),
        (''epic'', [''epic'', ''saga'', ''massive'', ''huge'', ''enormous''])],
     tone_keywords =
       [(''dark'', [''dark'', ''grim'', ''serious'', ''somber'', ''tragic'']),
        (''light'', [''light'', ''cheerful'', ''happy'', ''optimistic'', ''bright'']),
        (''humorous'', [''funny'', ''humorous'', ''comedic'', ''amusing'', ''witty'']),
        (''dramatic'', [''dramatic'', ''intense'', ''emotional'', ''powerful'']),
        (''mysterious'', [''mysterious'', ''enigmatic'', ''cryptic'', ''puzzling''])],
     character_patterns =
       [seqs [lits ''about '', article, capture, lits '' who''],
        seqs [lits ''protagonist '', is_named_called, capture, terminator],
        seqs [lits ''main character '', is_named_called, capture, terminator],
        seqs [lits ''story of '', article, capture, terminator]],
     setting_patterns =
       [seqs [lits ''set in '', capture, terminator],
        seqs [lits ''takes place in '', capture, terminator],
        seqs [lits ''located in '', capture, terminator],
        seqs [lits ''world of '', capture, terminator]]\<rparr>"

datatype py_error = AttributeError

text \<open>\<open>sum(1 for keyword in keywords if keyword in prompt_lower)\<close>\<close>

definition keyword_score :: "string list \<Rightarrow> string \<Rightarrow> nat" where
  "keyword_score keywords prompt_lower =
     length (filter (\<lambda>keyword. str_in keyword prompt_lower) keywords)"

text \<open>The loop that fills \<open>genre_scores\<close>: an entry for each genre of positive score.\<close>

fun genre_scores :: "(string \<times> string list) list \<Rightarrow> string \<Rightarrow> (string \<times> nat) list" where
  "genre_scores [] prompt_lower = []"
| "genre_scores ((g, keywords) # rest) prompt_lower =
     (let score = keyword_score keywords prompt_lower
      in if 0 < score then (g, score) # genre_scores rest prompt_lower
         else genre_scores rest prompt_lower)"

text \<open>
  \<open>max(genre_scores, key=genre_scores.get)\<close> on a non-empty dict: the keys are visited
  in order, and the best so far is replaced only by a strictly larger value.
\<close>

fun max_key :: "string \<times> nat \<Rightarrow> (string \<times> nat) list \<Rightarrow> string" where
  "max_key (k, v) [] = k"
| "max_key (k, v) ((k', v') # rest) =
     (if v < v' then max_key (k', v') rest else max_key (k, v) rest)"

text \<open>
  The loops for length and tone: the first key one of whose keywords occurs in the
  prompt; None when the loop ends without an assignment.
\<close>

fun first_keyword_hit :: "(string \<times> string list) list \<Rightarrow> string \<Rightarrow> string option" where
  "first_keyword_hit [] prompt_lower = None"
| "first_keyword_hit ((name, keywords) # rest) prompt_lower =
     (if list_ex (\<lambda>keyword. str_in keyword prompt_lower) keywords then Some name
      else first_keyword_hit rest prompt_lower)"

definition ic :: flags where
  "ic = \<lparr>ignorecase = True, dotall = False, multiline = False\<rparr>"

text \<open>
  The loops for protagonist and setting: the first pattern that is found gives
  \<open>match.group(1).strip()\<close>. A group that took no part in the match is None in Python, and
  \<open>.strip()\<close> on it raises AttributeError.
\<close>

fun first_capture :: "regex list \<Rightarrow> string \<Rightarrow> py_error + string option" where
  "first_capture [] prompt = Inr None"
| "first_capture (pattern # rest) prompt =
     (case re_search ic pattern prompt of
        None \<Rightarrow> first_capture rest prompt
      | Some (p, s, g) \<Rightarrow>
          (case g of None \<Rightarrow> Inl AttributeError | Some t \<Rightarrow> Inr (Some (strip t))))"

definition analyze_prompt :: "PromptAnalyzer \<Rightarrow> string \<Rightarrow> py_error + StoryConfig" where
  "analyze_prompt self prompt =
     (let config = StoryConfig_default\<lparr>original_prompt := prompt\<rparr>;
          prompt_lower = lower prompt;
          config = (case genre_scores (genre_keywords self) prompt_lower of
                      [] \<Rightarrow> config
                    | kv # rest \<Rightarrow> config\<lparr>genre := max_key kv rest\<rparr>);
          config = (case first_keyword_hit (length_keywords self) prompt_lower of
                      None \<Rightarrow> config
                    | Some l \<Rightarrow> config\<lparr>story_length := l\<rparr>);
          config = (case first_keyword_hit (tone_keywords self) prompt_lower of
                      None \<Rightarrow> config
                    | Some t \<Rightarrow> config\<lparr>tone := t\<rparr>)
      in case first_capture (character_patterns self) prompt of
           Inl e \<Rightarrow> Inl e
         | Inr m \<Rightarrow>
             (let config = (case m of None \<Rightarrow> config | Some t \<Rightarrow> config\<lparr>protagonist := t\<rparr>)
              in case first_capture (setting_patterns self) prompt of
                   Inl e \<Rightarrow> Inl e
                 | Inr m' \<Rightarrow>
                     Inr (case m' of None \<Rightarrow> config | Some t \<Rightarrow> config\<lparr>setting := t\<rparr>)))"



section \<open>webapp.py: clean\_story\_content\<close>

definition dm :: flags where
  "dm = \<lparr>ignorecase = False, dotall = True, multiline = True\<rparr>"

text \<open>\<open>\\s+\<close> and the lookahead \<open>(?=\\n\\n|\\n[A-Z])\<close> that ends every planning pattern.\<close>

definition ws :: regex where
  "ws = GreedyPlus (OneOf [Space])"

definition story_ahead :: regex where
  "story_ahead =
     Lookahead (Alt (Seq (lit newline) (lit newline))
                    (Seq (lit newline) (One (OneOf [Range (CHR ''A'') (CHR ''Z'')]))))"

text \<open>
  A planning pattern \<open>^w1\\s+w2\\s+...wn.*?(?=\\n\\n|\\n[A-Z])\<close> is written by its words;
  an empty last word stands for a pattern whose words end in \<open>\\s+\<close>.
\<close>

fun ws_join :: "string list \<Rightarrow> regex list" where
  "ws_join [] = []"
| "ws_join [w] = [lits w]"
| "ws_join (w # w' # rest) = lits w # ws # ws_join (w' # rest)"

definition planning :: "string list \<Rightarrow> regex" where
  "planning words = seqs (Bol # ws_join words @ [LazyStar Any, story_ahead])"

definition planning_patterns :: "regex list" where
  "planning_patterns =
     [planning [''Check'', ''for'', ''cultural''],
      planning [''Ensure'', ''the'', ''story''],
      planning [''Avoid'', ''any'', ''''],
      planning [''Keep'', ''paragraphs''],
      planning [''Let'', ''me'', ''draft''],
      planning [''Maybe'', ''''],
      planning [''Wait,'', ''''],
      planning [''Since'', ''''],
      planning [''Stick'', ''to'', ''the'', ''request''],
      planning [''Okay,'', ''the'', ''user'', ''wants''],
      planning [''First,'', ''I'', ''need'', ''to''],
      planning [''Let'', ''me'', ''start'', ''by''],
      planning [''I'', ''need'', ''to'', ''build''],
      planning [''The'', ''main'', ''character'', ''should'', ''be''],
      planning [''Themes:''],
      planning [''Plot'', ''structure:''],
      planning [''Vivid'', ''descriptions:''],
      planning [''Dialogue'', ''examples:''],
      planning [''Ending:''],
      planning [''Need'', ''to'', ''ensure''],
      planning [''Make'', ''sure'', ''the'', ''story'']]"

definition planning_keywords :: "string list" where
  "planning_keywords =
     [''check for'', ''ensure'', ''avoid'', ''keep'', ''let me'', ''maybe'', ''wait'', ''since'',
      ''stick to'', ''okay'', ''first'', ''i need'', ''the main'', ''themes:'', ''plot'',
      ''vivid'', ''dialogue'', ''ending:'', ''need to'', ''make sure'', ''step by step'',
      ''making sure'', ''draft it'']"

text \<open>
  The loop over \<open>enumerate(lines)\<close>: the index of the first line that is not blank and
  holds no planning keyword; 0, the initial value, when there is none.
\<close>

fun story_start :: "string list \<Rightarrow> nat \<Rightarrow> nat" where
  "story_start [] i = 0"
| "story_start (line # rest) i =
     (let line_lower = strip (lower line)
      in if line_lower \<noteq> [] \<and> \<not> list_ex (\<lambda>keyword. str_in keyword line_lower) planning_keywords
         then i else story_start rest (Suc i))"

text \<open>
  The text the function has built when it reaches its last test: the patterns deleted
  one after the other, the leading planning lines dropped, the rest joined and stripped.
\<close>

definition cleaned_text :: "string \<Rightarrow> string" where
  "cleaned_text story_text =
     (let cleaned = foldl (\<lambda>t pattern. re_sub_empty dm pattern t) story_text planning_patterns;
          lines = split_nl cleaned;
          story_start_idx = story_start lines 0;
          cleaned_lines = drop story_start_idx lines
      in strip (join_nl cleaned_lines))"

definition clean_story_content :: "string \<Rightarrow> string" where
  "clean_story_content story_text =
     (if length (cleaned_text story_text) < 100 then strip story_text
      else cleaned_text story_text)"

section \<open>Definitions for the statements and their proofs\<close>

text \<open>A pattern without a group; a pattern every match of which has set group 1.\<close>

fun group_free :: "regex \<Rightarrow> bool" where
  "group_free (Group a) = False"
| "group_free (Seq a b) = (group_free a \<and> group_free b)"
| "group_free (Alt a b) = (group_free a \<and> group_free b)"
| "group_free (Opt a) = group_free a"
| "group_free r = True"

fun always_group :: "regex \<Rightarrow> bool" where
  "always_group (Group a) = True"
| "always_group (Seq a b) = (always_group b \<or> (always_group a \<and> group_free b))"
| "always_group (Alt a b) = (always_group a \<and> always_group b)"
| "always_group r = False"

text \<open>
  The score of one genre on a prompt, as the loop over the genre table computes it: the
  number of the genre's keywords that occur in the lower-cased prompt.
\<close>

definition genre_score :: "string \<Rightarrow> string \<Rightarrow> nat" where
  "genre_score g prompt =
     (case map_of (genre_keywords PromptAnalyzer_init) g of
        None \<Rightarrow> 0
      | Some keywords \<Rightarrow> keyword_score keywords (lower prompt))"

text \<open>The characters of the class \<open>[\\.,\\s]\<close>.\<close>

definition terminator_char :: "char \<Rightarrow> bool" where
  "terminator_char c = (c = CHR ''.'' \<or> c = CHR '','' \<or> is_space c)"

text \<open>
  The seven patterns that end in the class \<open>[\\.,\\s]\<close>, each with the words that
  introduce it.
\<close>

definition terminated_patterns :: "(string \<times> regex) list" where
  "terminated_patterns =
     zip [''protagonist '', ''main character '', ''story of '',
          ''set in '', ''takes place in '', ''located in '', ''world of '']
         (tl (character_patterns PromptAnalyzer_init) @ setting_patterns PromptAnalyzer_init)"

text \<open>A sequence whose last pattern is the class \<open>[\\.,\\s]\<close>.\<close>

fun ends_terminated :: "regex \<Rightarrow> bool" where
  "ends_terminated (Seq a b) = (if b = Eps then a = terminator else ends_terminated b)"
| "ends_terminated r = False"

text \<open>A pattern that starts with the words \<open>intro\<close> and ends in the class \<open>[\\.,\\s]\<close>.\<close>

fun introduced :: "string \<Rightarrow> regex \<Rightarrow> bool" where
  "introduced intro (Seq a b) = (a = lits intro \<and> ends_terminated b)"
| "introduced intro r = False"

section \<open>The analyzer always returns a record\<close>

lemma step_keeps: "(p', s', g') \<in> set (step f cs (p, s, g)) \<Longrightarrow> g' = g"
  by (cases s) (auto split: if_splits)

lemma lazy_run_keeps: "(p', s', g') \<in> set (lazy_run f cs (p, s, g)) \<Longrightarrow> g' = g"
  by (induction s arbitrary: p) (auto split: if_splits)

lemma greedy_run_keeps: "(p', s', g') \<in> set (greedy_run f cs (p, s, g)) \<Longrightarrow> g' = g"
  by (induction s arbitrary: p) (auto split: if_splits)

lemma group_free_keeps:
  "group_free r \<Longrightarrow> (p', s', g') \<in> set (rmatch f r (p, s, g)) \<Longrightarrow> g' = g"
proof (induction r arbitrary: p s g p' s' g')
  case (One cs)
  then show ?case by (auto dest: step_keeps)
next
  case (LazyStar cs)
  then show ?case by (auto dest: lazy_run_keeps)
next
  case (LazyPlus cs)
  then show ?case by (fastforce dest: lazy_run_keeps step_keeps)
next
  case (GreedyPlus cs)
  then show ?case by (fastforce dest: greedy_run_keeps step_keeps)
next
  case (Seq a b)
  then show ?case by fastforce
next
  case (Lookahead a)
  then show ?case by (auto split: if_splits)
next
  case Bol
  then show ?case by (auto split: if_splits)
qed auto

lemma always_group_sets:
  "always_group r \<Longrightarrow> (p', s', g') \<in> set (rmatch f r (p, s, g)) \<Longrightarrow> g' \<noteq> None"
proof (induction r arbitrary: p s g p' s' g')
  case (Seq a b)
  from Seq.prems(2) obtain p1 s1 g1 where
    a: "(p1, s1, g1) \<in> set (rmatch f a (p, s, g))" and
    b: "(p', s', g') \<in> set (rmatch f b (p1, s1, g1))"
    by auto
  show ?case
  proof (cases "always_group b")
    case True
    then show ?thesis using Seq.IH(2) b by blast
  next
    case False
    with Seq.prems(1) have "always_group a" "group_free b" by auto
    then have "g1 \<noteq> None" "g' = g1"
      using Seq.IH(1) a group_free_keeps b by blast+
    then show ?thesis by simp
  qed
next
  case (Alt a b)
  then show ?case by auto
next
  case (Group a)
  then show ?case by auto
qed auto

lemma search_from_in:
  "search_from f r p s = Some st \<Longrightarrow> \<exists>p' s'. st \<in> set (rmatch f r (p', s', None))"
proof (induction s arbitrary: p)
  case Nil
  then show ?case by (auto split: list.splits) (metis list.set_intros(1))
next
  case (Cons x xs)
  then show ?case by (auto split: list.splits) (metis list.set_intros(1))
qed

lemma first_capture_total:
  "\<forall>r\<in>set ps. always_group r \<Longrightarrow> \<exists>m. first_capture ps s = Inr m"
proof (induction ps)
  case Nil
  then show ?case by simp
next
  case (Cons r ps)
  show ?case
  proof (cases "re_search ic r s")
    case None
    then show ?thesis using Cons by simp
  next
    case (Some st)
    obtain p' s' g' where st: "st = (p', s', g')" by (cases st)
    from Some obtain p0 s0 where "st \<in> set (rmatch ic r (p0, s0, None))"
      unfolding re_search_def using search_from_in by blast
    with st Cons.prems have "g' \<noteq> None"
      using always_group_sets by (metis list.set_intros(1))
    then show ?thesis using Some st by auto
  qed
qed

lemma patterns_always_group:
  "\<forall>r\<in>set (character_patterns PromptAnalyzer_init). always_group r"
  "\<forall>r\<in>set (setting_patterns PromptAnalyzer_init). always_group r"
  by (simp_all add: PromptAnalyzer_init_def capture_def terminator_def article_def is_named_called_def lit_def)

lemma analyze_prompt_total: "\<exists>c. analyze_prompt PromptAnalyzer_init p = Inr c"
proof -
  obtain m where m: "first_capture (character_patterns PromptAnalyzer_init) p = Inr m"
    using first_capture_total patterns_always_group(1) by blast
  obtain m' where m': "first_capture (setting_patterns PromptAnalyzer_init) p = Inr m'"
    using first_capture_total patterns_always_group(2) by blast
  show ?thesis
    by (simp add: analyze_prompt_def Let_def m m')
qed

lemma analyze_prompt_fields:
  assumes "analyze_prompt self p = Inr c"
  shows "genre c = (case genre_scores (genre_keywords self) (lower p) of
                      [] \<Rightarrow> ''general'' | kv # rest \<Rightarrow> max_key kv rest)"
    and "story_length c = (case first_keyword_hit (length_keywords self) (lower p) of
                      None \<Rightarrow> ''medium'' | Some l \<Rightarrow> l)"
    and "tone c = (case first_keyword_hit (tone_keywords self) (lower p) of
                      None \<Rightarrow> ''neutral'' | Some t \<Rightarrow> t)"
    and "style c = ''narrative''" and "theme c = []" and "original_prompt c = p"
  using assms
  by (auto simp: analyze_prompt_def Let_def StoryConfig_default_def
      split: sum.splits list.splits option.splits)

lemma genre_scores_keys: "(k, v) \<in> set (genre_scores tbl pl) \<Longrightarrow> k \<in> fst ` set tbl"
  by (induction tbl pl rule: genre_scores.induct) (auto simp: Let_def split: if_splits)

lemma max_key_in: "max_key kv rest \<in> fst ` set (kv # rest)"
  by (induction kv rest rule: max_key.induct) auto

lemma first_keyword_hit_in: "first_keyword_hit tbl pl = Some l \<Longrightarrow> l \<in> fst ` set tbl"
  by (induction tbl pl rule: first_keyword_hit.induct) (auto split: if_splits)

lemma genre_in_table:
  assumes "analyze_prompt self p = Inr c"
  shows "genre c = ''general'' \<or> genre c \<in> fst ` set (genre_keywords self)"
proof (cases "genre_scores (genre_keywords self) (lower p)")
  case Nil
  then show ?thesis using analyze_prompt_fields(1)[OF assms] by simp
next
  case (Cons kv rest)
  then have "genre c = max_key kv rest"
    using analyze_prompt_fields(1)[OF assms] by simp
  then have "genre c \<in> fst ` set (genre_scores (genre_keywords self) (lower p))"
    using max_key_in[of kv rest] Cons by simp
  then show ?thesis using genre_scores_keys by fastforce
qed

lemma length_in_table:
  assumes "analyze_prompt self p = Inr c"
  shows "story_length c = ''medium'' \<or> story_length c \<in> fst ` set (length_keywords self)"
  using analyze_prompt_fields(2)[OF assms] first_keyword_hit_in
  by (fastforce split: option.splits)

lemma tone_in_table:
  assumes "analyze_prompt self p = Inr c"
  shows "tone c = ''neutral'' \<or> tone c \<in> fst ` set (tone_keywords self)"
  using analyze_prompt_fields(3)[OF assms] first_keyword_hit_in
  by (fastforce split: option.splits)

section \<open>Claims about analyze\_prompt\<close>

text \<open>
  C1. For every prompt, the record that \<open>analyze_prompt\<close> returns has its genre among
  fantasy, sci-fi, mystery, horror, romance, adventure, thriller, historical, comedy,
  contemporary and general, its length among short, medium, long and epic, and its tone
  among dark, light, humorous, dramatic, mysterious and neutral.
\<close>

theorem analyze_prompt_closed_sets:
  "\<exists>c. analyze_prompt PromptAnalyzer_init p = Inr c
     \<and> genre c \<in> set [''fantasy'', ''sci-fi'', ''mystery'', ''horror'', ''romance'', ''adventure'',
                       ''thriller'', ''historical'', ''comedy'', ''contemporary'', ''general'']
     \<and> story_length c \<in> set [''short'', ''medium'', ''long'', ''epic'']
     \<and> tone c \<in> set [''dark'', ''light'', ''humorous'', ''dramatic'', ''mysterious'', ''neutral'']"
proof -
  obtain c where c: "analyze_prompt PromptAnalyzer_init p = Inr c"
    using analyze_prompt_total by blast
  have "genre c \<in> set [''fantasy'', ''sci-fi'', ''mystery'', ''horror'', ''romance'', ''adventure'',
                       ''thriller'', ''historical'', ''comedy'', ''contemporary'', ''general'']"
    using genre_in_table[OF c] by (simp add: PromptAnalyzer_init_def) blast
  moreover have "story_length c \<in> set [''short'', ''medium'', ''long'', ''epic'']"
    using length_in_table[OF c] by (simp add: PromptAnalyzer_init_def) blast
  moreover have "tone c \<in> set [''dark'', ''light'', ''humorous'', ''dramatic'', ''mysterious'', ''neutral'']"
    using tone_in_table[OF c] by (simp add: PromptAnalyzer_init_def) blast
  ultimately show ?thesis using c by blast
qed

text \<open>
  C5. On the empty prompt \<open>analyze_prompt\<close> returns a record, with every field at its
  default: genre general, length medium, tone neutral, protagonist and setting empty.
\<close>

theorem analyze_prompt_empty:
  "analyze_prompt PromptAnalyzer_init [] =
     Inr \<lparr>genre = ''general'', style = ''narrative'', story_length = ''medium'',
          tone = ''neutral'', protagonist = [], setting = [], theme = [],
          original_prompt = []\<rparr>"
  by code_simp

text \<open>
  C6. On the prompt "an epicurean feast" the length is epic: the keyword "epic" is a
  substring of the lower-cased prompt, inside the word "epicurean".
\<close>

theorem analyze_prompt_epicurean:
  "str_in ''epic'' (lower ''an epicurean feast'')
   \<and> analyze_prompt PromptAnalyzer_init ''an epicurean feast'' =
       Inr \<lparr>genre = ''general'', style = ''narrative'', story_length = ''epic'',
            tone = ''neutral'', protagonist = [], setting = [], theme = [],
            original_prompt = ''an epicurean feast''\<rparr>"
  by code_simp



text \<open>
  C9. For every prompt, the record returned has style "narrative" and an empty theme,
  and its original\_prompt is the prompt as given.
\<close>

theorem analyze_prompt_frame:
  "\<exists>c. analyze_prompt PromptAnalyzer_init p = Inr c
     \<and> style c = ''narrative'' \<and> theme c = [] \<and> original_prompt c = p"
  using analyze_prompt_total[of p] analyze_prompt_fields(4,5,6) by blast

text \<open>
  C3, as the claim states it, fails: on the prompt "A fantasy story about a young wizard
  who saves his village" the protagonist is not "a young wizard".
\<close>

theorem analyze_prompt_wizard_counterexample:
  "protagonist (projr (analyze_prompt PromptAnalyzer_init
      ''A fantasy story about a young wizard who saves his village'')) \<noteq> ''a young wizard''"
  by code_simp

text \<open>
  C3, amended. On that prompt the first character pattern, "about (a |an )?X who",
  matches and captures "young wizard": the article is taken by the optional group before
  the capture. The record returned has genre fantasy and protagonist "young wizard".
\<close>

theorem analyze_prompt_wizard:
  "first_capture [hd (character_patterns PromptAnalyzer_init)]
       ''A fantasy story about a young wizard who saves his village'' = Inr (Some ''young wizard'')
   \<and> analyze_prompt PromptAnalyzer_init
       ''A fantasy story about a young wizard who saves his village'' =
       Inr \<lparr>genre = ''fantasy'', style = ''narrative'', story_length = ''medium'',
            tone = ''neutral'', protagonist = ''young wizard'', setting = [], theme = [],
            original_prompt = ''A fantasy story about a young wizard who saves his village''\<rparr>"
  by code_simp

text \<open>
  C4, as the claim states it, fails: on the prompt "Write a short horror story set in an
  abandoned hospital" the setting is not "an abandoned hospital".
\<close>

theorem analyze_prompt_hospital_counterexample:
  "setting (projr (analyze_prompt PromptAnalyzer_init
      ''Write a short horror story set in an abandoned hospital'')) \<noteq> ''an abandoned hospital''"
  by code_simp

text \<open>
  C4, amended. On that prompt the first setting pattern, "set in X" with X ended by a
  period, a comma or whitespace, matches and captures "an", the text up to the first
  space. The record returned has length short, genre horror and setting "an".
\<close>

theorem analyze_prompt_hospital:
  "first_capture [hd (setting_patterns PromptAnalyzer_init)]
       ''Write a short horror story set in an abandoned hospital'' = Inr (Some ''an'')
   \<and> analyze_prompt PromptAnalyzer_init
       ''Write a short horror story set in an abandoned hospital'' =
       Inr \<lparr>genre = ''horror'', style = ''narrative'', story_length = ''short'',
            tone = ''neutral'', protagonist = [], setting = ''an'', theme = [],
            original_prompt = ''Write a short horror story set in an abandoned hospital''\<rparr>"
  by code_simp

section \<open>The tie-break between genres\<close>

lemma max_key_first:
  "\<forall>x\<in>set (kv # rest). snd x \<le> M \<Longrightarrow> \<exists>x\<in>set (kv # rest). snd x = M
   \<Longrightarrow> find (\<lambda>x. snd x = M) (kv # rest) = Some (max_key kv rest, M)"
proof (induction kv rest rule: max_key.induct)
  case (1 k v)
  then show ?case by simp
next
  case (2 k v k' v' rest)
  show ?case
  proof (cases "v < v'")
    case True
    then have "v \<noteq> M" using "2.prems"(1) by auto
    moreover have "find (\<lambda>x. snd x = M) ((k', v') # rest) = Some (max_key (k', v') rest, M)"
      using "2.IH"(1)[OF True] "2.prems" \<open>v \<noteq> M\<close> by auto
    ultimately show ?thesis using True by simp
  next
    case False
    have ex: "\<exists>x\<in>set ((k, v) # rest). snd x = M"
      using "2.prems" False by auto
    have "find (\<lambda>x. snd x = M) ((k, v) # rest) = Some (max_key (k, v) rest, M)"
      using "2.IH"(2)[OF False] "2.prems"(1) ex by auto
    moreover have "v \<noteq> M \<Longrightarrow> v' \<noteq> M" using False "2.prems"(1) by auto
    ultimately show ?thesis using False by auto
  qed
qed

lemma genre_scores_filter:
  "genre_scores tbl pl =
     filter (\<lambda>x. 0 < snd x) (map (\<lambda>gk. (fst gk, keyword_score (snd gk) pl)) tbl)"
  by (induction tbl pl rule: genre_scores.induct) (auto simp: Let_def)

lemma find_filter_weaker: "(\<And>x. P x \<Longrightarrow> Q x) \<Longrightarrow> find P (filter Q xs) = find P xs"
  by (induction xs) auto

lemma find_fst:
  "\<forall>x\<in>set xs. h (fst x) = snd x
   \<Longrightarrow> find (\<lambda>g. h g = M) (map fst xs) = map_option fst (find (\<lambda>x. snd x = M) xs)"
  by (induction xs) auto

lemma genre_keys:
  "map fst (genre_keywords PromptAnalyzer_init) =
     [''fantasy'', ''sci-fi'', ''mystery'', ''horror'', ''romance'', ''adventure'',
      ''thriller'', ''historical'', ''comedy'', ''contemporary'']"
  by (simp add: PromptAnalyzer_init_def)

lemma genre_score_table:
  assumes "(g, kws) \<in> set (genre_keywords PromptAnalyzer_init)"
  shows "genre_score g p = keyword_score kws (lower p)"
proof -
  have "distinct (map fst (genre_keywords PromptAnalyzer_init))"
    unfolding genre_keys by simp
  then have "map_of (genre_keywords PromptAnalyzer_init) g = Some kws"
    using assms by simp
  then show ?thesis by (simp add: genre_score_def)
qed

lemma genre_first_maximum:
  assumes pos: "0 < M"
    and le: "\<forall>g\<in>set (map fst (genre_keywords PromptAnalyzer_init)). genre_score g p \<le> M"
    and ex: "\<exists>g\<in>set (map fst (genre_keywords PromptAnalyzer_init)). genre_score g p = M"
    and c: "analyze_prompt PromptAnalyzer_init p = Inr c"
  shows "find (\<lambda>g. genre_score g p = M) (map fst (genre_keywords PromptAnalyzer_init))
           = Some (genre c)"
proof -
  let ?tbl = "genre_keywords PromptAnalyzer_init"
  let ?scored = "map (\<lambda>gk. (fst gk, keyword_score (snd gk) (lower p))) ?tbl"
  have sc: "\<forall>x\<in>set ?scored. genre_score (fst x) p = snd x"
    using genre_score_table by auto
  have fsts: "map fst ?scored = map fst ?tbl" by (simp add: comp_def)
  have all_le: "\<forall>x\<in>set (genre_scores ?tbl (lower p)). snd x \<le> M"
    unfolding genre_scores_filter using sc le fsts
    by (metis (no_types, lifting) filter_is_subset image_eqI list.set_map subsetD)
  from ex obtain x where x: "x \<in> set ?scored" "snd x = M"
    using sc fsts by (metis (no_types, lifting) image_iff list.set_map)
  then have "x \<in> set (filter (\<lambda>x. 0 < snd x) ?scored)"
    using pos by simp
  then have ex_max: "\<exists>x\<in>set (genre_scores ?tbl (lower p)). snd x = M"
    unfolding genre_scores_filter using x(2) by blast
  then obtain kv rest where kv: "genre_scores ?tbl (lower p) = kv # rest"
    by (cases "genre_scores ?tbl (lower p)") auto
  have g: "genre c = max_key kv rest"
    using analyze_prompt_fields(1)[OF c] kv by simp
  have "find (\<lambda>x. snd x = M) (genre_scores ?tbl (lower p)) = Some (genre c, M)"
    using max_key_first[of kv rest M] all_le ex_max kv g by simp
  then have "find (\<lambda>x. snd x = M) ?scored = Some (genre c, M)"
    unfolding genre_scores_filter using pos find_filter_weaker[of "\<lambda>x. snd x = M" "\<lambda>x. 0 < snd x" ?scored]
    by simp
  then have "find (\<lambda>g. genre_score g p = M) (map fst ?scored) = Some (genre c)"
    using find_fst[OF sc, of M] by simp
  then show ?thesis by (simp only: fsts)
qed

text \<open>
  C2. When two or more genres reach the same maximum positive keyword score, the genre
  returned is the first one, in the declared order of the table, that has this score.
  \<open>genre_score g p\<close> is the number of keywords of genre \<open>g\<close> that occur in the lower-cased
  prompt, each counted once.
\<close>

theorem genre_tie_break:
  assumes "g1 \<in> set [''fantasy'', ''sci-fi'', ''mystery'', ''horror'', ''romance'', ''adventure'',
                      ''thriller'', ''historical'', ''comedy'', ''contemporary'']"
    and "g2 \<in> set [''fantasy'', ''sci-fi'', ''mystery'', ''horror'', ''romance'', ''adventure'',
                    ''thriller'', ''historical'', ''comedy'', ''contemporary'']"
    and "g1 \<noteq> g2"
    and "genre_score g1 p = M" and "genre_score g2 p = M" and "0 < M"
    and "\<forall>g\<in>set [''fantasy'', ''sci-fi'', ''mystery'', ''horror'', ''romance'', ''adventure'',
                   ''thriller'', ''historical'', ''comedy'', ''contemporary'']. genre_score g p \<le> M"
  shows "\<exists>c. analyze_prompt PromptAnalyzer_init p = Inr c
           \<and> find (\<lambda>g. genre_score g p = M)
                 [''fantasy'', ''sci-fi'', ''mystery'', ''horror'', ''romance'', ''adventure'',
                  ''thriller'', ''historical'', ''comedy'', ''contemporary''] = Some (genre c)"
proof -
  obtain c where c: "analyze_prompt PromptAnalyzer_init p = Inr c"
    using analyze_prompt_total by blast
  have "find (\<lambda>g. genre_score g p = M) (map fst (genre_keywords PromptAnalyzer_init))
          = Some (genre c)"
    using genre_first_maximum[OF assms(6) _ _ c] assms(1,4,7) unfolding genre_keys by blast
  then show ?thesis using c unfolding genre_keys by blast
qed

text \<open>The prompt "magic space": fantasy and sci-fi both score 1, and fantasy is returned.\<close>

lemma magic_space_scores:
  "genre_score ''fantasy'' ''magic space'' = 1"
  "genre_score ''sci-fi'' ''magic space'' = 1"
  "\<forall>g\<in>set [''fantasy'', ''sci-fi'', ''mystery'', ''horror'', ''romance'', ''adventure'',
             ''thriller'', ''historical'', ''comedy'', ''contemporary'']. genre_score g ''magic space'' \<le> 1"
  "find (\<lambda>g. genre_score g ''magic space'' = 1)
      [''fantasy'', ''sci-fi'', ''mystery'', ''horror'', ''romance'', ''adventure'',
       ''thriller'', ''historical'', ''comedy'', ''contemporary''] = Some ''fantasy''"
  by code_simp+

theorem genre_tie_break_witness:
  "genre_score ''fantasy'' ''magic space'' = 1 \<and> genre_score ''sci-fi'' ''magic space'' = 1
   \<and> (\<exists>c. analyze_prompt PromptAnalyzer_init ''magic space'' = Inr c \<and> genre c = ''fantasy'')"
  using genre_tie_break[of "''fantasy''" "''sci-fi''" "''magic space''" 1] magic_space_scores
  by auto

section \<open>Claims about clean\_story\_content\<close>

text \<open>
  C10. When the text left by the planning-removal pipeline (the patterns deleted, the
  leading planning lines dropped, the result stripped) is shorter than 100 characters,
  \<open>clean_story_content\<close> returns the original input stripped of surrounding whitespace;
  so it never returns a text that is both different from the stripped original and
  shorter than 100 characters.
\<close>

theorem clean_story_content_guard:
  "(length (cleaned_text story_text) < 100 \<longrightarrow> clean_story_content story_text = strip story_text)
   \<and> \<not> (clean_story_content story_text \<noteq> strip story_text
          \<and> length (clean_story_content story_text) < 100)"
  by (simp add: clean_story_content_def)

text \<open>
  Two inputs. On the first the pipeline leaves 17 characters, and the stripped original
  is returned. On the second it leaves the story, 115 characters, and that is returned.
\<close>

lemma cleaned_text_short:
  "cleaned_text ''Maybe a story.\<newline>\<newline>Once upon a time.  ''
     = ''Once upon a time.''"
  "strip ''Maybe a story.\<newline>\<newline>Once upon a time.  ''
     = ''Maybe a story.\<newline>\<newline>Once upon a time.''"
  by code_simp+

lemma cleaned_text_long:
  "cleaned_text ''Okay, the user wants a tale.\<newline>Let me draft it now.\<newline>\<newline>Once upon a time there was a small village at the edge of a very large and very old forest, and in it lived a girl.''
     = ''Once upon a time there was a small village at the edge of a very large and very old forest, and in it lived a girl.''"
  "strip ''Okay, the user wants a tale.\<newline>Let me draft it now.\<newline>\<newline>Once upon a time there was a small village at the edge of a very large and very old forest, and in it lived a girl.''
     = ''Okay, the user wants a tale.\<newline>Let me draft it now.\<newline>\<newline>Once upon a time there was a small village at the edge of a very large and very old forest, and in it lived a girl.''"
  by code_simp+

theorem clean_story_content_guard_witness:
  "length (cleaned_text ''Maybe a story.\<newline>\<newline>Once upon a time.  '') < 100
   \<and> clean_story_content ''Maybe a story.\<newline>\<newline>Once upon a time.  ''
       = ''Maybe a story.\<newline>\<newline>Once upon a time.''
   \<and> clean_story_content ''Okay, the user wants a tale.\<newline>Let me draft it now.\<newline>\<newline>Once upon a time there was a small village at the edge of a very large and very old forest, and in it lived a girl.''
       = ''Once upon a time there was a small village at the edge of a very large and very old forest, and in it lived a girl.''"
proof -
  have short: "length (cleaned_text ''Maybe a story.\<newline>\<newline>Once upon a time.  '') < 100"
    by (simp add: cleaned_text_short(1))
  have "\<not> length (cleaned_text ''Okay, the user wants a tale.\<newline>Let me draft it now.\<newline>\<newline>Once upon a time there was a small village at the edge of a very large and very old forest, and in it lived a girl.'') < 100"
    by (simp add: cleaned_text_long(1))
  then have long: "clean_story_content ''Okay, the user wants a tale.\<newline>Let me draft it now.\<newline>\<newline>Once upon a time there was a small village at the edge of a very large and very old forest, and in it lived a girl.''
       = ''Once upon a time there was a small village at the edge of a very large and very old forest, and in it lived a girl.''"
    by (simp add: clean_story_content_def cleaned_text_long(1))
  show ?thesis
    using short long
      clean_story_content_guard[of "''Maybe a story.\<newline>\<newline>Once upon a time.  ''"]
    by (simp add: cleaned_text_short(2))
qed

section \<open>Patterns that need a terminator\<close>

lemma step_suffix: "(p', s', g') \<in> set (step f cs (p, s, g)) \<Longrightarrow> \<exists>u. s = u @ s'"
  by (cases s) (auto split: if_splits)

lemma lazy_run_suffix: "(p', s', g') \<in> set (lazy_run f cs (p, s, g)) \<Longrightarrow> \<exists>u. s = u @ s'"
proof (induction s arbitrary: p)
  case Nil
  then show ?case by simp
next
  case (Cons x xs)
  then show ?case by (auto split: if_splits) (metis append_Cons)
qed

lemma greedy_run_suffix: "(p', s', g') \<in> set (greedy_run f cs (p, s, g)) \<Longrightarrow> \<exists>u. s = u @ s'"
proof (induction s arbitrary: p)
  case Nil
  then show ?case by simp
next
  case (Cons x xs)
  then show ?case by (auto split: if_splits) (metis append_Cons)
qed

lemma rmatch_suffix: "(p', s', g') \<in> set (rmatch f r (p, s, g)) \<Longrightarrow> \<exists>u. s = u @ s'"
proof (induction r arbitrary: p s g p' s' g')
  case (One cs)
  then show ?case using step_suffix by simp
next
  case (LazyStar cs)
  then show ?case using lazy_run_suffix by simp
next
  case (LazyPlus cs)
  then obtain p1 s1 g1 where "(p1, s1, g1) \<in> set (step f cs (p, s, g))"
    "(p', s', g') \<in> set (lazy_run f cs (p1, s1, g1))" by auto
  then show ?case using step_suffix lazy_run_suffix by (metis append.assoc)
next
  case (GreedyPlus cs)
  then obtain p1 s1 g1 where "(p1, s1, g1) \<in> set (step f cs (p, s, g))"
    "(p', s', g') \<in> set (greedy_run f cs (p1, s1, g1))" by auto
  then show ?case using step_suffix greedy_run_suffix by (metis append.assoc)
next
  case Eps
  then show ?case by simp
next
  case (Seq a b)
  then obtain p1 s1 g1 where "(p1, s1, g1) \<in> set (rmatch f a (p, s, g))"
    "(p', s', g') \<in> set (rmatch f b (p1, s1, g1))" by auto
  then show ?case using Seq.IH by (metis append.assoc)
next
  case (Alt a b)
  then show ?case by auto
next
  case (Opt a)
  then show ?case by auto
next
  case (Group a)
  then show ?case by auto
next
  case (Lookahead a)
  then show ?case by (auto split: if_splits)
next
  case Bol
  then show ?case by (auto split: if_splits)
qed

lemma lower_char_below_a:
  assumes "lower_char t = c" and "(of_char c :: nat) < 97"
  shows "t = c"
proof (rule ccontr)
  assume ne: "t \<noteq> c"
  let ?n = "of_char t :: nat"
  from ne assms(1) have up: "(65 \<le> ?n \<and> ?n \<le> 90) \<or> (192 \<le> ?n \<and> ?n \<le> 222 \<and> ?n \<noteq> 215)"
    and c: "c = char_of (?n + 32)"
    by (auto simp: lower_char_def Let_def split: if_splits)
  have "(of_char c :: nat) = (?n + 32) mod 256"
    unfolding c by simp
  with up assms(2) show False by auto
qed

lemma terminator_match:
  assumes "(p', s', g') \<in> set (rmatch ic terminator (p, s, g))"
  shows "\<exists>t. s = t # s' \<and> terminator_char t"
proof (cases s)
  case Nil
  then show ?thesis using assms by (simp add: terminator_def)
next
  case (Cons t ts)
  with assms have m: "lower_char t = lower_char CHR ''.'' \<or> lower_char t = lower_char CHR '','' \<or> is_space t"
    and s': "s' = ts"
    by (auto simp: terminator_def ic_def split: if_splits)
  have "lower_char CHR ''.'' = CHR ''.''" "lower_char CHR '','' = CHR '',''"
    by (simp_all add: lower_char_def)
  with m have "terminator_char t"
    unfolding terminator_char_def using lower_char_below_a[of t "CHR ''.''"] lower_char_below_a[of t "CHR '',''"]
    by auto
  then show ?thesis using Cons s' by simp
qed

lemma ends_terminated_match:
  "ends_terminated r \<Longrightarrow> (p', s', g') \<in> set (rmatch ic r (p, s, g))
   \<Longrightarrow> \<exists>y t z. s = y @ t # z \<and> terminator_char t"
proof (induction r arbitrary: p s g)
  case (Seq a b)
  from Seq.prems(2) obtain p1 s1 g1 where
    a: "(p1, s1, g1) \<in> set (rmatch ic a (p, s, g))" and
    b: "(p', s', g') \<in> set (rmatch ic b (p1, s1, g1))"
    by auto
  show ?case
  proof (cases "b = Eps")
    case True
    with Seq.prems(1) have "a = terminator" by simp
    then obtain t where "s = t # s1" "terminator_char t"
      using a terminator_match by blast
    then show ?thesis by (metis append_Nil)
  next
    case False
    with Seq.prems(1) have "ends_terminated b" by simp
    then obtain y t z where "s1 = y @ t # z" "terminator_char t"
      using Seq.IH(2) b by blast
    moreover obtain u where "s = u @ s1" using rmatch_suffix a by blast
    ultimately show ?thesis by (metis append.assoc)
  qed
qed auto

lemma lits_match:
  "(p', s', g') \<in> set (rmatch ic (lits k) (p, s, g))
   \<Longrightarrow> \<exists>v. s = v @ s' \<and> length v = length k \<and> lower v = lower k"
proof (induction k arbitrary: p s g)
  case Nil
  then show ?case by (simp add: lower_def)
next
  case (Cons c cs)
  from Cons.prems obtain p1 s1 g1 where
    a: "(p1, s1, g1) \<in> set (rmatch ic (lit c) (p, s, g))" and
    b: "(p', s', g') \<in> set (rmatch ic (lits cs) (p1, s1, g1))"
    by auto
  from a obtain x where x: "s = x # s1" "lower_char x = lower_char c"
    by (cases s) (auto simp: lit_def ic_def split: if_splits)
  from Cons.IH[OF b] obtain v where "s1 = v @ s'" "length v = length cs" "lower v = lower cs"
    by blast
  with x have "s = (x # v) @ s' \<and> length (x # v) = length (c # cs) \<and> lower (x # v) = lower (c # cs)"
    by (simp add: lower_def)
  then show ?case by blast
qed

lemma introduced_match:
  assumes "introduced intro r" and "(p', s', g') \<in> set (rmatch ic r (p, s, g))"
  shows "\<exists>v y t z. s = v @ y @ t # z \<and> length v = length intro \<and> lower v = lower intro
           \<and> terminator_char t"
proof -
  from assms(1) obtain b where r: "r = Seq (lits intro) b" and b: "ends_terminated b"
    by (cases r) auto
  from assms(2) r obtain p1 s1 g1 where
    1: "(p1, s1, g1) \<in> set (rmatch ic (lits intro) (p, s, g))" and
    2: "(p', s', g') \<in> set (rmatch ic b (p1, s1, g1))"
    by auto
  from lits_match[OF 1] obtain v where "s = v @ s1" "length v = length intro" "lower v = lower intro"
    by blast
  moreover from ends_terminated_match[OF b 2] obtain y t z where "s1 = y @ t # z" "terminator_char t"
    by blast
  ultimately show ?thesis by blast
qed

lemma search_from_position:
  "search_from f r p s = Some st \<Longrightarrow> \<exists>u s0 p0. s = u @ s0 \<and> st \<in> set (rmatch f r (p0, s0, None))"
proof (induction s arbitrary: p)
  case Nil
  then show ?case by (auto split: list.splits) (metis list.set_intros(1))
next
  case (Cons x xs)
  show ?case
  proof (cases "rmatch f r (p, x # xs, None)")
    case Nil
    with Cons.prems have "search_from f r (Some x) xs = Some st" by simp
    from Cons.IH[OF this] obtain u s0 p0 where "xs = u @ s0" "st \<in> set (rmatch f r (p0, s0, None))"
      by blast
    then have "x # xs = (x # u) @ s0" by simp
    then show ?thesis using \<open>st \<in> set (rmatch f r (p0, s0, None))\<close> by blast
  next
    case (Cons st' rest)
    with Cons.prems have "st \<in> set (rmatch f r (p, x # xs, None))" by simp
    then show ?thesis by (metis append_Nil)
  qed
qed

lemma starts_with_append: "starts_with k (k @ b)"
  by (induction k) auto

lemma str_in_append: "str_in k (a @ k @ b)"
proof (induction a)
  case Nil
  show ?case using starts_with_append[of k b] by (cases "k @ b") auto
next
  case (Cons c a)
  then show ?case by simp
qed


lemma terminated_patterns_introduced:
  assumes "(intro, r) \<in> set terminated_patterns"
  shows "introduced intro r" and "intro \<noteq> []" and "last intro = CHR '' ''" and "lower intro = intro"
proof -
  have "list_all (\<lambda>(i, r). introduced i r \<and> i \<noteq> [] \<and> last i = CHR '' '' \<and> lower i = i)
          terminated_patterns"
    by code_simp
  then have "introduced intro r \<and> intro \<noteq> [] \<and> last intro = CHR '' '' \<and> lower intro = intro"
    using assms unfolding list_all_iff by blast
  then show "introduced intro r" and "intro \<noteq> []" and "last intro = CHR '' ''" and "lower intro = intro"
    by simp_all
qed

lemma space_is_terminator: "lower_char c = CHR '' '' \<Longrightarrow> terminator_char c"
proof -
  assume "lower_char c = CHR '' ''"
  then have "c = CHR '' ''" using lower_char_below_a[of c "CHR '' ''"] by simp
  then show ?thesis by (simp add: terminator_char_def is_space_def)
qed

text \<open>
  The same in terms of \<open>lower\<close> and \<open>in\<close>: \<open>w\<close> lower-cased is the introducer, and the
  introducer is no substring of the lower-cased prompt before the last character of \<open>w\<close>.
\<close>

lemma unterminated_phrase_lower:
  assumes tp: "(intro, r) \<in> set terminated_patterns"
    and w: "lower w = intro"
    and x: "\<not> list_ex terminator_char x"
    and pre: "\<not> str_in intro (lower (pre @ butlast w))"
  shows "re_search ic r (pre @ w @ x) = None"
proof (rule ccontr)
  note i = terminated_patterns_introduced[OF tp]
  assume "re_search ic r (pre @ w @ x) \<noteq> None"
  then obtain st where "search_from ic r None (pre @ w @ x) = Some st"
    by (auto simp: re_search_def)
  from search_from_position[OF this] obtain u s0 p0 where
    s: "pre @ w @ x = u @ s0" and st: "st \<in> set (rmatch ic r (p0, s0, None))"
    by blast
  obtain p' s' g' where "st = (p', s', g')" by (cases st)
  with introduced_match[OF i(1)] st obtain v y t z where
    s0: "s0 = v @ y @ t # z" and lv: "length v = length intro"
    and lowv: "lower v = intro" and t: "terminator_char t"
    using i(4) by metis
  have lw: "length w = length intro" using w by (auto simp: lower_def)
  have wne: "w \<noteq> []" and vne: "v \<noteq> []" using lw lv i(2) by auto
  have eq: "pre @ w @ x = u @ v @ y @ t # z" using s s0 by simp
  consider "length u < length pre" | "length u = length pre" | "length pre < length u"
    by linarith
  then show False
  proof cases
    case 1
    have "take (length u + length v) (pre @ w @ x) = u @ v"
      unfolding eq by simp
    moreover have "pre @ w @ x = (pre @ butlast w) @ last w # x"
      using wne by simp
    moreover have "length u + length v \<le> length (pre @ butlast w)"
      using 1 lv lw i(2) by simp
    ultimately have "take (length u + length v) (pre @ butlast w) = u @ v"
      by (metis append_eq_conv_conj take_append take_all_iff append_Nil2 diff_is_0_eq' take_0 le_refl)
    then obtain rest where "pre @ butlast w = u @ v @ rest"
      by (metis append_take_drop_id append.assoc)
    then have "lower (pre @ butlast w) = lower u @ intro @ lower rest"
      using lowv by (simp add: lower_def)
    then show False using pre str_in_append by simp
  next
    case 2
    with eq have "w @ x = v @ y @ t # z" by simp
    then have "x = y @ t # z" using lv lw by simp
    then have "list_ex terminator_char x" using t by (auto simp: list_ex_iff)
    then show False using x by simp
  next
    case 3
    let ?i = "length u + length v - 1"
    have "(u @ v @ y @ t # z) ! ?i = last v"
    proof -
      have "?i = length u + (length v - 1)" using vne by (cases v) auto
      then have "(u @ v @ y @ t # z) ! ?i = (v @ y @ t # z) ! (length v - 1)"
        by (simp only: nth_append_length_plus)
      also have "\<dots> = v ! (length v - 1)" using vne by (simp add: nth_append)
      also have "\<dots> = last v" using vne by (simp add: last_conv_nth)
      finally show ?thesis .
    qed
    moreover have "?i - length pre - length w < length x"
    proof -
      have "length (pre @ w @ x) = length (u @ v @ y @ t # z)" using eq by simp
      then show ?thesis using 3 lv lw vne by simp
    qed
    moreover have "(pre @ w @ x) ! ?i = x ! (?i - length pre - length w)"
    proof -
      have ge: "length (pre @ w) \<le> ?i" using 3 lv lw vne by (cases v) auto
      have "((pre @ w) @ x) ! ?i = x ! (?i - length (pre @ w))"
        using ge by (rule nth_append_right)
      then show ?thesis by simp
    qed
    ultimately have "last v \<in> set x" using eq by (metis nth_mem)
    moreover have "lower_char (last v) = CHR '' ''"
    proof -
      have "lower_char (last v) = last (lower v)" using vne by (simp add: lower_def last_map)
      then show ?thesis using lowv i(3) by simp
    qed
    ultimately have "list_ex terminator_char x"
      using space_is_terminator by (auto simp: list_ex_iff)
    then show False using x by simp
  qed
qed


lemma lits_found:
  "lower v = lower k \<Longrightarrow> rmatch ic (lits k) (p, v @ rest, g) \<noteq> []"
proof (induction k arbitrary: v p)
  case Nil
  then show ?case by (simp add: lower_def)
next
  case (Cons c cs)
  then obtain x v' where v: "v = x # v'" "lower_char x = lower_char c" "lower v' = lower cs"
    by (cases v) (auto simp: lower_def)
  have "rmatch ic (lit c) (p, v @ rest, g) = [(Some x, v' @ rest, g)]"
    using v by (simp add: lit_def ic_def)
  then show ?case using Cons.IH[OF v(3), of "Some x"] by simp
qed

lemma search_from_finds:
  "(\<And>p. rmatch f r (p, s0, None) \<noteq> []) \<Longrightarrow> search_from f r p (u @ s0) \<noteq> None"
proof (induction u arbitrary: p)
  case Nil
  then show ?case by (cases s0) (auto split: list.splits)
next
  case (Cons x u)
  then show ?case by (auto split: list.splits)
qed

lemma starts_with_decomp: "starts_with k s \<Longrightarrow> \<exists>b. s = k @ b"
  by (induction k s rule: starts_with.induct) auto

lemma str_in_decomp: "str_in k s \<Longrightarrow> \<exists>a b. s = a @ k @ b"
proof (induction s)
  case Nil
  then show ?case by simp
next
  case (Cons c cs)
  show ?case
  proof (cases "starts_with k (c # cs)")
    case True
    then show ?thesis using starts_with_decomp by (metis append_Nil)
  next
    case False
    with Cons obtain a b where "cs = a @ k @ b" by auto
    then have "c # cs = (c # a) @ k @ b" by simp
    then show ?thesis by blast
  qed
qed

lemma introducer_found:
  assumes "lower k = k" and "str_in k (lower s)"
  shows "re_search ic (lits k) s \<noteq> None"
proof -
  from str_in_decomp[OF assms(2)] obtain a b where "a @ (k @ b) = map lower_char s"
    by (auto simp: lower_def)
  then obtain u s0 where s: "s = u @ s0" and "k @ b = map lower_char s0"
    unfolding append_eq_map_conv by blast
  then obtain v rest where s0: "s0 = v @ rest" and v: "k = map lower_char v"
    unfolding append_eq_map_conv by blast
  have "lower v = lower k" using v assms(1) by (simp add: lower_def)
  then have "rmatch ic (lits k) (p, s0, None) \<noteq> []" for p
    unfolding s0 by (rule lits_found)
  then show ?thesis
    unfolding re_search_def s by (rule search_from_finds)
qed

lemma fullmatch_lits:
  assumes "re_fullmatch ic (lits k) w"
  shows "lower w = lower k"
proof -
  from assms obtain p' g' where "(p', [], g') \<in> set (rmatch ic (lits k) (None, w, None))"
    by (auto simp: re_fullmatch_def list_ex_iff)
  from lits_match[OF this] show ?thesis by simp
qed

text \<open>
  C8, amended. Take one of the seven patterns that end in the class of period, comma and
  whitespace, and a prompt \<open>pre @ w @ x\<close> that ends in the phrase \<open>x\<close> after the
  introducer \<open>w\<close>, where \<open>w\<close> is text that the pattern's introducing words match under
  IGNORECASE. If the phrase holds no period, comma or whitespace, and the introducing
  words are not found earlier in the prompt (by \<open>re.search\<close> under IGNORECASE, in the
  prompt up to the last character of \<open>w\<close>), then the pattern is not found in the prompt.
\<close>

theorem unterminated_phrase_no_match:
  assumes tp: "(intro, r) \<in> set terminated_patterns"
    and w: "re_fullmatch ic (lits intro) w"
    and x: "\<not> list_ex terminator_char x"
    and pre: "re_search ic (lits intro) (pre @ butlast w) = None"
  shows "re_search ic r (pre @ w @ x) = None"
proof -
  note i = terminated_patterns_introduced[OF tp]
  have "lower w = intro"
    using fullmatch_lits[OF w] i(4) by simp
  moreover have "\<not> str_in intro (lower (pre @ butlast w))"
    using introducer_found[OF i(4)] pre by blast
  ultimately show ?thesis
    using unterminated_phrase_lower[OF tp _ x] by blast
qed

text \<open>
  The prompt "A Story Of Dragon": the "story of" pattern is not found in it, and the
  protagonist returned is empty.
\<close>

theorem unterminated_phrase_no_match_witness:
  "(''story of '', character_patterns PromptAnalyzer_init ! 3) \<in> set terminated_patterns
   \<and> re_fullmatch ic (lits ''story of '') ''Story Of ''
   \<and> \<not> list_ex terminator_char ''Dragon''
   \<and> re_search ic (lits ''story of '') (''A '' @ butlast ''Story Of '') = None
   \<and> re_search ic (character_patterns PromptAnalyzer_init ! 3) ''A Story Of Dragon'' = None
   \<and> protagonist (projr (analyze_prompt PromptAnalyzer_init ''A Story Of Dragon'')) = []"
proof -
  have 1: "(''story of '', character_patterns PromptAnalyzer_init ! 3) \<in> set terminated_patterns"
    by code_simp
  have 2: "re_fullmatch ic (lits ''story of '') ''Story Of ''"
    by code_simp
  have 3: "\<not> list_ex terminator_char ''Dragon''"
    by code_simp
  have 4: "re_search ic (lits ''story of '') (''A '' @ butlast ''Story Of '') = None"
    by code_simp
  have 5: "protagonist (projr (analyze_prompt PromptAnalyzer_init ''A Story Of Dragon'')) = []"
    by code_simp
  show ?thesis
    using unterminated_phrase_no_match[OF 1 2 3 4] 1 2 3 4 5 by simp
qed

text \<open>
  C8, as the claim states it, fails. In "story of a dragon" the phrase "a dragon" stands at
  the very end, with nothing after it, and yet the "story of" pattern is found: the
  optional article is given up, the capture is "a", and the space before "dragon" is the
  terminator. The protagonist returned is not empty.
\<close>

theorem story_of_a_dragon_counterexample:
  "re_search ic (character_patterns PromptAnalyzer_init ! 3) ''story of a dragon'' \<noteq> None
   \<and> protagonist (projr (analyze_prompt PromptAnalyzer_init ''story of a dragon'')) \<noteq> []"
  by code_simp

end
